theory Spec2Isabelle
  imports Main
begin

section \<open>Slash-separated paths (Go's \<open>path\<close> package, as used by the Set)\<close>

text \<open>
  The Set normalises every template path with \<open>filepath.ToSlash\<close>, \<open>path.IsAbs\<close>,
  \<open>path.Dir\<close>, \<open>path.Join\<close> and \<open>path.Base\<close>.  These are functions of Go's standard
  library; they are transcribed here statement by statement, on byte strings.
\<close>

text \<open>\<open>filepath.ToSlash\<close>: every OS separator becomes a slash.  The separator of the
  host is a parameter (\<open>/\<close> on Unix, where the function is the identity).\<close>

definition ToSlash :: "char \<Rightarrow> string \<Rightarrow> string" where
  "ToSlash Separator p =
     (if Separator = CHR ''/'' then p
      else map (\<lambda>c. if c = Separator then CHR ''/'' else c) p)"

text \<open>\<open>path.IsAbs\<close>: \<open>len(path) > 0 && path[0] == '/'\<close>.\<close>

definition IsAbs :: "string \<Rightarrow> bool" where
  "IsAbs p = (case p of [] \<Rightarrow> False | c # _ \<Rightarrow> c = CHR ''/'')"

text \<open>The inner loop of the \<open>..\<close> case of \<open>path.Clean\<close>: after \<open>out.w--\<close>, the write
  index moves left while it is above \<open>dotdot\<close> and the byte under it is not a slash.\<close>

fun backtrack :: "string \<Rightarrow> nat \<Rightarrow> nat \<Rightarrow> nat" where
  "backtrack out dotdot 0 = 0"
| "backtrack out dotdot (Suc w) =
     (if Suc w > dotdot \<and> out ! (Suc w) \<noteq> CHR ''/'' then backtrack out dotdot w else Suc w)"

text \<open>The main loop of \<open>path.Clean\<close>.  The first argument is the unread rest of the
  path (\<open>path[r:]\<close>), \<open>out\<close> holds the bytes written so far (\<open>out.w = length out\<close>).\<close>

function clean_loop :: "bool \<Rightarrow> string \<Rightarrow> string \<Rightarrow> nat \<Rightarrow> string" where
  "clean_loop rooted [] out dotdot = out"
| "clean_loop rooted (c # rest) out dotdot =
     (if c = CHR ''/'' then clean_loop rooted rest out dotdot
      else if c = CHR ''.'' \<and> (rest = [] \<or> hd rest = CHR ''/'') then
        clean_loop rooted rest out dotdot
      else if c = CHR ''.'' \<and> hd rest = CHR ''.'' \<and> (tl rest = [] \<or> hd (tl rest) = CHR ''/'') then
        (if length out > dotdot then
           clean_loop rooted (tl rest) (take (backtrack out dotdot (length out - 1)) out) dotdot
         else if \<not> rooted then
           (let out' = (if length out > 0 then out @ ''/'' else out) @ ''..''
            in clean_loop rooted (tl rest) out' (length out'))
         else clean_loop rooted (tl rest) out dotdot)
      else
        (let out' = (if rooted \<and> length out \<noteq> 1 \<or> \<not> rooted \<and> length out \<noteq> 0
                     then out @ ''/'' else out)
         in clean_loop rooted (dropWhile (\<lambda>x. x \<noteq> CHR ''/'') (c # rest))
              (out' @ takeWhile (\<lambda>x. x \<noteq> CHR ''/'') (c # rest)) dotdot))"
  by pat_completeness auto
termination
proof (relation "measure (\<lambda>(rooted, p, out, dotdot). length p)")
  show "wf (measure (\<lambda>(rooted, p, out, dotdot). length p))" by simp
next
  fix rooted :: bool and c :: char and rest out :: string and dotdot :: nat
    and x :: string
  assume "c \<noteq> CHR ''/''"
  then have "length (dropWhile (\<lambda>x. x \<noteq> CHR ''/'') (c # rest)) \<le> length rest"
    by (simp add: length_dropWhile_le)
  then show "((rooted, dropWhile (\<lambda>x. x \<noteq> CHR ''/'') (c # rest),
        x @ takeWhile (\<lambda>x. x \<noteq> CHR ''/'') (c # rest), dotdot),
       rooted, c # rest, out, dotdot) \<in> measure (\<lambda>(rooted, p, out, dotdot). length p)"
    by simp
qed (auto simp: less_Suc_eq_le intro: le_trans [OF diff_le_self])

definition Clean :: "string \<Rightarrow> string" where
  "Clean p =
     (if p = [] then ''.''
      else
        (let rooted = (hd p = CHR ''/'');
             out = (if rooted then clean_loop True (tl p) ''/'' 1
                    else clean_loop False p [] 0)
         in if length out = 0 then ''.'' else out))"

text \<open>\<open>path.Join\<close>: the non-empty elements, separated by slashes, then cleaned; the
  empty string when every element is empty.\<close>

fun join_buf :: "string \<Rightarrow> string list \<Rightarrow> string" where
  "join_buf buf [] = buf"
| "join_buf buf (e # es) =
     join_buf (if length buf > 0 \<or> e \<noteq> [] then
                 (if length buf > 0 then buf @ ''/'' else buf) @ e
               else buf) es"

definition Join :: "string list \<Rightarrow> string" where
  "Join elem = (if sum_list (map length elem) = 0 then [] else Clean (join_buf [] elem))"

text \<open>\<open>LastIndexByteString\<close>: the index of the last occurrence of a byte, or \<open>-1\<close>.\<close>

fun last_index_below :: "string \<Rightarrow> char \<Rightarrow> nat \<Rightarrow> int" where
  "last_index_below s c 0 = - 1"
| "last_index_below s c (Suc i) = (if s ! i = c then int i else last_index_below s c i)"

definition LastIndexByte :: "string \<Rightarrow> char \<Rightarrow> int" where
  "LastIndexByte s c = last_index_below s c (length s)"

text \<open>\<open>path.Split\<close> and \<open>path.Dir\<close>.\<close>

definition Split :: "string \<Rightarrow> string \<times> string" where
  "Split p = (let i = LastIndexByte p CHR ''/'' in (take (nat (i + 1)) p, drop (nat (i + 1)) p))"

definition Dir :: "string \<Rightarrow> string" where
  "Dir p = Clean (fst (Split p))"

text \<open>\<open>path.Base\<close>: the last element; trailing slashes are removed first; \<open>.\<close> for the
  empty path and \<open>/\<close> for a path of slashes only.\<close>

definition strip_trailing_slashes :: "string \<Rightarrow> string" where
  "strip_trailing_slashes p = rev (dropWhile (\<lambda>c. c = CHR ''/'') (rev p))"

definition Base :: "string \<Rightarrow> string" where
  "Base p =
     (if p = [] then ''.''
      else
        (let p1 = strip_trailing_slashes p;
             i = LastIndexByte p1 CHR ''/'';
             p2 = (if i \<ge> 0 then drop (nat (i + 1)) p1 else p1)
         in if p2 = [] then ''/'' else p2))"

section \<open>Data model\<close>

text \<open>Dynamic values.  An \<open>interface{}\<close> is nil, holds a plain value, or holds a
  \<open>reflect.Value\<close>; \<open>reflect.ValueOf\<close> boxes an interface value (the zero
  \<open>reflect.Value\<close> is \<open>ValueOf IfaceNil\<close>).\<close>

datatype 'a iface = IfaceNil | IfaceOf 'a | IfaceValue "'a Value"
  and 'a Value = ValueOf "'a iface"

type_synonym 'a VarMap = "string \<rightharpoonup> 'a Value"

text \<open>Go \<open>error\<close> values built by this code, with the message each one carries.\<close>

datatype error =
    TemplateNotFound string
  | InvalidTemplatePath
  | DoesNotExist string
  | ExternalError string

fun Error :: "error \<Rightarrow> string" where
  "Error (TemplateNotFound templatePath) = ''template '' @ templatePath @ '' could not be found''"
| "Error InvalidTemplatePath = ''template path has no base name''"
| "Error (DoesNotExist templatePath) = templatePath @ '' does not exist''"
| "Error (ExternalError msg) = msg"

text \<open>The \<open>Loader\<close> interface.  \<open>Open\<close> stands for opening and reading the whole
  stream (\<open>Open\<close> followed by \<open>ioutil.ReadAll\<close>): it gives the content or the error of
  either step.\<close>

record Loader =
  Exists :: "string \<Rightarrow> string \<times> bool"
  Open :: "string \<Rightarrow> error + string"

text \<open>\<open>InMemLoader\<close>: a map from path to content.\<close>

definition InMemLoader_Open :: "(string \<rightharpoonup> string) \<Rightarrow> string \<Rightarrow> error + string" where
  "InMemLoader_Open files templatePath =
     (case files templatePath of None \<Rightarrow> Inl (DoesNotExist templatePath) | Some f \<Rightarrow> Inr f)"

definition InMemLoader_Exists :: "(string \<rightharpoonup> string) \<Rightarrow> string \<Rightarrow> string \<times> bool" where
  "InMemLoader_Exists files templatePath =
     (case files templatePath of None \<Rightarrow> ([], False) | Some f \<Rightarrow> (templatePath, True))"

definition InMemLoader_Set ::
  "char \<Rightarrow> (string \<rightharpoonup> string) \<Rightarrow> string \<Rightarrow> string \<Rightarrow> (string \<rightharpoonup> string)" where
  "InMemLoader_Set Separator files templatePath contents =
     files(Join [''/'', ToSlash Separator templatePath] \<mapsto> contents)"

definition InMemLoader :: "(string \<rightharpoonup> string) \<Rightarrow> Loader" where
  "InMemLoader files = \<lparr>Exists = InMemLoader_Exists files, Open = InMemLoader_Open files\<rparr>"

text \<open>Templates live on the heap and are referred to by pointer; \<open>None\<close> is the nil
  pointer.  The fields are the ones the code reads.\<close>

type_synonym tref = nat

record ('n, 'b) Template =
  ParseName :: string
  Root :: 'n
  extends :: "tref option"
  imports_list :: "tref list"
  processedBlocks :: "string \<rightharpoonup> 'b"
  set_ptr :: nat

datatype access = ExistsCall string | OpenCall string

text \<open>The memory outside the Set: the template heap with its allocation counter, and
  the log of every call made to the loader.\<close>

record ('n, 'b) Mem =
  heap :: "tref \<Rightarrow> ('n, 'b) Template"
  next_ref :: tref
  accesses :: "access list"

definition defaultExtensions :: "string list" where
  "defaultExtensions = ['''', ''.jet'', ''.html.jet'', ''.jet.html'']"

text \<open>The Set.  Its two mutexes are left out: the operations are modelled one call at
  a time.\<close>

record ('a, 'e) Set =
  loader :: Loader
  templates :: "string \<rightharpoonup> tref"
  escapee :: 'e
  globals :: "'a VarMap"
  extensions :: "string list"
  developmentMode :: bool
  leftDelim :: string
  rightDelim :: string

section \<open>Set operations\<close>

definition SetDevelopmentMode :: "('a, 'e) Set \<Rightarrow> bool \<Rightarrow> ('a, 'e) Set" where
  "SetDevelopmentMode s b = s\<lparr>developmentMode := b\<rparr>"

text \<open>\<open>LookupGlobal\<close> returns the stored \<open>reflect.Value\<close> as an \<open>interface{}\<close>, and
  whether the key was present; for a missing key the map read gives the zero
  \<open>reflect.Value\<close>.\<close>

definition LookupGlobal :: "('a, 'e) Set \<Rightarrow> string \<Rightarrow> 'a iface \<times> bool" where
  "LookupGlobal s key =
     (case globals s key of
        None \<Rightarrow> (IfaceValue (ValueOf IfaceNil), False)
      | Some v \<Rightarrow> (IfaceValue v, True))"

definition AddGlobal :: "('a, 'e) Set \<Rightarrow> string \<Rightarrow> 'a iface \<Rightarrow> ('a, 'e) Set" where
  "AddGlobal s key i = s\<lparr>globals := (globals s)(key \<mapsto> ValueOf i)\<rparr>"

definition AddGlobalFunc :: "('a, 'e) Set \<Rightarrow> string \<Rightarrow> 'a iface \<Rightarrow> ('a, 'e) Set" where
  "AddGlobalFunc s key fn = AddGlobal s key fn"

definition NewSetLoader :: "'e \<Rightarrow> Loader \<Rightarrow> ('a, 'e) Set" where
  "NewSetLoader esc l =
     \<lparr>loader = l, templates = Map.empty, escapee = esc, globals = Map.empty,
      extensions = [] @ defaultExtensions, developmentMode = False,
      leftDelim = [], rightDelim = []\<rparr>"

definition Delims :: "('a, 'e) Set \<Rightarrow> string \<Rightarrow> string \<Rightarrow> ('a, 'e) Set" where
  "Delims s left right = s\<lparr>leftDelim := left, rightDelim := right\<rparr>"

definition SetExtensions :: "('a, 'e) Set \<Rightarrow> string list \<Rightarrow> ('a, 'e) Set" where
  "SetExtensions s exts = s\<lparr>extensions := exts\<rparr>"

text \<open>The method \<open>parse\<close> of the Set (lexer, parser and inheritance composition) is
  defined with the parser, outside the files modelled here.  It is a parameter of
  everything below: given the
  Set, the memory, the canonical path, the content and the caching flag, it gives a
  template pointer or an error, the template cache as its nested sibling lookups left
  it, and the memory.\<close>

type_synonym ('a, 'e, 'n, 'b) parser =
  "('a, 'e) Set \<Rightarrow> ('n, 'b) Mem \<Rightarrow> string \<Rightarrow> string \<Rightarrow> bool
     \<Rightarrow> (error + tref) \<times> (string \<rightharpoonup> tref) \<times> ('n, 'b) Mem"

type_synonym ('a, 'e, 'n, 'b) outcome = "(error + tref) \<times> ('a, 'e) Set \<times> ('n, 'b) Mem"

definition call_parse ::
  "('a, 'e, 'n, 'b) parser \<Rightarrow> ('a, 'e) Set \<Rightarrow> ('n, 'b) Mem \<Rightarrow> string \<Rightarrow> string \<Rightarrow> bool
     \<Rightarrow> ('a, 'e, 'n, 'b) outcome" where
  "call_parse parse s m templatePath contents cacheAfterParsing =
     (case parse s m templatePath contents cacheAfterParsing of
        (r, tm, m') \<Rightarrow> (r, s\<lparr>templates := tm\<rparr>, m'))"

definition log_access :: "access \<Rightarrow> ('n, 'b) Mem \<Rightarrow> ('n, 'b) Mem" where
  "log_access a m = m\<lparr>accesses := accesses m @ [a]\<rparr>"

text \<open>\<open>getTemplateFromCache\<close>: the first extension whose canonical path is cached;
  \<open>None\<close> is the result \<open>(nil, false)\<close>.\<close>

fun cache_probe :: "(string \<rightharpoonup> tref) \<Rightarrow> string \<Rightarrow> string list \<Rightarrow> tref option" where
  "cache_probe tm templatePath [] = None"
| "cache_probe tm templatePath (extension # exts) =
     (case tm (templatePath @ extension) of
        Some t \<Rightarrow> Some t
      | None \<Rightarrow> cache_probe tm templatePath exts)"

definition getTemplateFromCache :: "('a, 'e) Set \<Rightarrow> string \<Rightarrow> tref option" where
  "getTemplateFromCache s templatePath = cache_probe (templates s) templatePath (extensions s)"

definition loadFromFile ::
  "('a, 'e, 'n, 'b) parser \<Rightarrow> ('a, 'e) Set \<Rightarrow> ('n, 'b) Mem \<Rightarrow> string \<Rightarrow> bool
     \<Rightarrow> ('a, 'e, 'n, 'b) outcome" where
  "loadFromFile parse s m templatePath cacheAfterParsing =
     (let m1 = log_access (OpenCall templatePath) m in
      case Open (loader s) templatePath of
        Inl err \<Rightarrow> (Inl err, s, m1)
      | Inr content \<Rightarrow> call_parse parse s m1 templatePath content cacheAfterParsing)"

fun loader_probe ::
  "('a, 'e, 'n, 'b) parser \<Rightarrow> ('a, 'e) Set \<Rightarrow> ('n, 'b) Mem \<Rightarrow> string \<Rightarrow> bool
     \<Rightarrow> string list \<Rightarrow> ('a, 'e, 'n, 'b) outcome" where
  "loader_probe parse s m templatePath cacheAfterParsing [] =
     (Inl (TemplateNotFound templatePath), s, m)"
| "loader_probe parse s m templatePath cacheAfterParsing (extension # exts) =
     (let canonicalPath = templatePath @ extension;
          m1 = log_access (ExistsCall canonicalPath) m
      in if snd (Exists (loader s) canonicalPath)
         then loadFromFile parse s m1 canonicalPath cacheAfterParsing
         else loader_probe parse s m1 templatePath cacheAfterParsing exts)"

definition getTemplateFromLoader ::
  "('a, 'e, 'n, 'b) parser \<Rightarrow> ('a, 'e) Set \<Rightarrow> ('n, 'b) Mem \<Rightarrow> string \<Rightarrow> bool
     \<Rightarrow> ('a, 'e, 'n, 'b) outcome" where
  "getTemplateFromLoader parse s m templatePath cacheAfterParsing =
     loader_probe parse s m templatePath cacheAfterParsing (extensions s)"

definition getTemplate ::
  "('a, 'e, 'n, 'b) parser \<Rightarrow> ('a, 'e) Set \<Rightarrow> ('n, 'b) Mem \<Rightarrow> string \<Rightarrow> bool
     \<Rightarrow> ('a, 'e, 'n, 'b) outcome" where
  "getTemplate parse s m templatePath cacheAfterParsing =
     (case (if \<not> developmentMode s then getTemplateFromCache s templatePath else None) of
        Some t \<Rightarrow> (Inr t, s, m)
      | None \<Rightarrow>
          (case getTemplateFromLoader parse s m templatePath cacheAfterParsing of
             (Inr t, s', m') \<Rightarrow>
               if cacheAfterParsing \<and> \<not> developmentMode s'
               then (Inr t, s'\<lparr>templates := (templates s')(templatePath \<mapsto> t)\<rparr>, m')
               else (Inr t, s', m')
           | (Inl err, s', m') \<Rightarrow> (Inl err, s', m')))"

definition getSiblingTemplate ::
  "char \<Rightarrow> ('a, 'e, 'n, 'b) parser \<Rightarrow> ('a, 'e) Set \<Rightarrow> ('n, 'b) Mem \<Rightarrow> string \<Rightarrow> string \<Rightarrow> bool
     \<Rightarrow> ('a, 'e, 'n, 'b) outcome" where
  "getSiblingTemplate Separator parse s m templatePath siblingPath cacheAfterParsing =
     (let templatePath1 = ToSlash Separator templatePath;
          siblingPath1 = ToSlash Separator siblingPath;
          templatePath2 =
            (if \<not> IsAbs templatePath1
             then (let siblingDir = Dir siblingPath1 in Join [siblingDir, templatePath1])
             else templatePath1)
      in getTemplate parse s m templatePath2 cacheAfterParsing)"

definition GetTemplate ::
  "char \<Rightarrow> ('a, 'e, 'n, 'b) parser \<Rightarrow> ('a, 'e) Set \<Rightarrow> ('n, 'b) Mem \<Rightarrow> string
     \<Rightarrow> ('a, 'e, 'n, 'b) outcome" where
  "GetTemplate Separator parse s m templatePath =
     getSiblingTemplate Separator parse s m templatePath ''/'' True"

definition Parse ::
  "char \<Rightarrow> ('a, 'e, 'n, 'b) parser \<Rightarrow> ('a, 'e) Set \<Rightarrow> ('n, 'b) Mem \<Rightarrow> string \<Rightarrow> string
     \<Rightarrow> ('a, 'e, 'n, 'b) outcome" where
  "Parse Separator parse s m templatePath contents =
     (let templatePath1 = ToSlash Separator templatePath in
      if Base templatePath1 = ''.'' \<or> Base templatePath1 = ''/''
      then (Inl InvalidTemplatePath, s, m)
      else call_parse parse s m (Join [''/'', templatePath1]) contents False)"

section \<open>Execution\<close>

text \<open>The runtime state, with the fields that \<open>ExecuteI18N\<close> binds (\<open>set_ref\<close> is the
  field \<open>set\<close>, \<open>context_val\<close> the field \<open>context\<close>).  A nil translator is \<open>None\<close>.\<close>

record ('a, 'b, 'tr, 'w) Runtime =
  blocks :: "string \<rightharpoonup> 'b"
  translator :: "'tr option"
  variables :: "'a VarMap"
  set_ref :: nat
  Writer :: 'w
  context_val :: "'a Value"

text \<open>The evaluator \<open>executeList\<close> is external: it is a parameter.  It either returns
  normally (\<open>None\<close>) or panics with a fault value, and leaves a runtime state.\<close>

type_synonym ('a, 'b, 'tr, 'w, 'n, 'f) evaluator =
  "('a, 'b, 'tr, 'w) Runtime \<Rightarrow> 'n \<Rightarrow> 'f option \<times> ('a, 'b, 'tr, 'w) Runtime"

datatype 'f exec_error = ExecutionFault 'f

text \<open>How a call ends: it returns its \<open>error\<close> result (\<open>None\<close> is nil), or a panic
  leaves it and reaches the caller.\<close>

datatype 'f completion = Returned "'f exec_error option" | Panicked 'f

text \<open>The loop \<open>for t.extends != nil { t = t.extends }\<close>.  It does not return on a
  cyclic chain: \<open>None\<close> is that case.\<close>

partial_function (option) resolve_extends ::
  "(tref \<Rightarrow> ('n, 'b) Template) \<Rightarrow> tref \<Rightarrow> tref option" where
  "resolve_extends h t =
     (case extends (h t) of None \<Rightarrow> Some t | Some parent \<Rightarrow> resolve_extends h parent)"

text \<open>Modelled from the spec: the deferred method \<open>recover\<close> of the runtime state is
  missing from the sources.  The spec: on return (success or failure) the runtime state
  is released back to the pool exactly once, and any internal fault raised during
  evaluation is intercepted at this boundary and converted into a returned error.\<close>

definition recover ::
  "('a, 'b, 'tr, 'w) Runtime \<Rightarrow> 'f option \<Rightarrow> ('a, 'b, 'tr, 'w) Runtime list
     \<Rightarrow> 'f completion \<times> ('a, 'b, 'tr, 'w) Runtime list" where
  "recover st fault pool =
     (case fault of
        None \<Rightarrow> (Returned None, st # pool)
      | Some f \<Rightarrow> (Returned (Some (ExecutionFault f)), st # pool))"


text \<open>The bindings of lines 282 to 286 and of line 294, on the state \<open>st\<close> the pool
  handed out.\<close>

definition bind_state ::
  "('a, 'b, 'tr, 'w) Runtime \<Rightarrow> ('n, 'b) Template \<Rightarrow> 'tr option \<Rightarrow> 'w \<Rightarrow> 'a VarMap
     \<Rightarrow> 'a iface \<Rightarrow> ('a, 'b, 'tr, 'w) Runtime" where
  "bind_state st t tr w vars data =
     (let st1 = st\<lparr>blocks := processedBlocks t, translator := tr, variables := vars,
                   set_ref := set_ptr t, Writer := w\<rparr>
      in if data \<noteq> IfaceNil then st1\<lparr>context_val := ValueOf data\<rparr> else st1)"

text \<open>\<open>ExecuteI18N\<close>.  \<open>pool_State.Get()\<close> is not in the sources: the state it hands
  out is the parameter \<open>st\<close> (a state of the pool after \<open>reset_for_reuse\<close>), and \<open>pool\<close>
  is what stays in the pool.\<close>

definition ExecuteI18N ::
  "('a, 'b, 'tr, 'w, 'n, 'f) evaluator \<Rightarrow> (tref \<Rightarrow> ('n, 'b) Template)
     \<Rightarrow> ('a, 'b, 'tr, 'w) Runtime list \<Rightarrow> ('a, 'b, 'tr, 'w) Runtime
     \<Rightarrow> tref \<Rightarrow> 'tr option \<Rightarrow> 'w \<Rightarrow> 'a VarMap \<Rightarrow> 'a iface
     \<Rightarrow> ('f completion \<times> ('a, 'b, 'tr, 'w) Runtime list) option" where
  "ExecuteI18N executeList h pool st t tr w vars data =
     (let st1 = bind_state st (h t) tr w vars data in
      case resolve_extends h t of
        None \<Rightarrow> None
      | Some root \<Rightarrow>
          (case executeList st1 (Root (h root)) of
             (fault, st2) \<Rightarrow> Some (recover st2 fault pool)))"

definition Execute ::
  "('a, 'b, 'tr, 'w, 'n, 'f) evaluator \<Rightarrow> (tref \<Rightarrow> ('n, 'b) Template)
     \<Rightarrow> ('a, 'b, 'tr, 'w) Runtime list \<Rightarrow> ('a, 'b, 'tr, 'w) Runtime
     \<Rightarrow> tref \<Rightarrow> 'w \<Rightarrow> 'a VarMap \<Rightarrow> 'a iface
     \<Rightarrow> ('f completion \<times> ('a, 'b, 'tr, 'w) Runtime list) option" where
  "Execute executeList h pool st t w vars data =
     ExecuteI18N executeList h pool st t None w vars data"

text \<open>The template reached from \<open>t\<close> by \<open>n\<close> extends links, following the spec's
  description of the extends chain; \<open>None\<close> when the chain is shorter.\<close>

fun ancestor :: "(tref \<Rightarrow> ('n, 'b) Template) \<Rightarrow> tref \<Rightarrow> nat \<Rightarrow> tref option" where
  "ancestor h t 0 = Some t"
| "ancestor h t (Suc n) =
     (case extends (h t) of None \<Rightarrow> None | Some parent \<Rightarrow> ancestor h parent n)"

section \<open>Instances used in the examples\<close>

text \<open>Modelled from the spec: the method \<open>parse\<close> is missing from the sources.  This
  instance is \<open>parse\<close> on a source text without extends, import or block directives: the
  text is wrapped as a new Template bound to the canonical path, and neither the cache
  nor the loader is touched.\<close>

definition plain_parse :: "('a, 'e, string, 'b) parser" where
  "plain_parse s m templatePath contents cacheAfterParsing =
     (Inr (next_ref m), templates s,
      m\<lparr>heap := (heap m)(next_ref m :=
            \<lparr>ParseName = templatePath, Root = contents, extends = None, imports_list = [],
             processedBlocks = Map.empty, set_ptr = 0\<rparr>),
        next_ref := Suc (next_ref m)\<rparr>)"

definition empty_template :: "(string, 'b) Template" where
  "empty_template =
     \<lparr>ParseName = [], Root = [], extends = None, imports_list = [],
      processedBlocks = Map.empty, set_ptr = 0\<rparr>"

definition example_Mem :: "(string, nat) Mem" where
  "example_Mem = \<lparr>heap = (\<lambda>_. empty_template), next_ref = 0, accesses = []\<rparr>"

text \<open>Three Sets as \<open>NewSetLoader\<close> makes them, over in-memory loaders: an empty one,
  one holding \<open>/a.jet\<close> only, and one holding both \<open>/a\<close> and \<open>/a.jet\<close>; and the second
  one after \<open>SetExtensions([]string{".jet"})\<close>.\<close>

definition empty_Set :: "(nat, unit) Set" where
  "empty_Set = NewSetLoader () (InMemLoader Map.empty)"

definition jet_Set :: "(nat, unit) Set" where
  "jet_Set = NewSetLoader () (InMemLoader (InMemLoader_Set CHR ''/'' Map.empty ''a.jet'' ''hello''))"

definition both_Set :: "(nat, unit) Set" where
  "both_Set = NewSetLoader ()
     (InMemLoader (InMemLoader_Set CHR ''/''
        (InMemLoader_Set CHR ''/'' Map.empty ''a'' ''exact'') ''a.jet'' ''jet''))"

definition jet_only_Set :: "(nat, unit) Set" where
  "jet_only_Set = SetExtensions jet_Set [''.jet'']"


definition both_after_jet :: "(nat, unit, string, nat) outcome" where
  "both_after_jet = GetTemplate CHR ''/'' plain_parse both_Set example_Mem ''/a.jet''"

definition jet_only_first :: "(nat, unit, string, nat) outcome" where
  "jet_only_first = GetTemplate CHR ''/'' plain_parse jet_only_Set example_Mem ''/a''"

text \<open>A heap with a base template at 0 and a child at 1 that extends it; a runtime state
  that holds a context; the state that an execution of the child with data 7 releases;
  an evaluator that returns normally, one that panics with the value 42, and one that
  panics with the context it finds.\<close>

definition example_heap :: "tref \<Rightarrow> (string, nat) Template" where
  "example_heap =
     (\<lambda>_. empty_template)
       (0 := \<lparr>ParseName = ''/base'', Root = ''base body'', extends = None, imports_list = [],
               processedBlocks = [''content'' \<mapsto> 10], set_ptr = 0\<rparr>,
        1 := \<lparr>ParseName = ''/child'', Root = ''child body'', extends = Some 0, imports_list = [],
               processedBlocks = [''content'' \<mapsto> 11], set_ptr = 0\<rparr>)"

definition used_state :: "(nat, nat, unit, unit) Runtime" where
  "used_state =
     \<lparr>blocks = Map.empty, translator = None, variables = Map.empty, set_ref = 0,
      Writer = (), context_val = ValueOf (IfaceOf 7)\<rparr>"

definition no_vars :: "nat VarMap" where
  "no_vars = Map.empty"


definition quiet_evaluator :: "(nat, nat, unit, unit, string, nat) evaluator" where
  "quiet_evaluator st n = (None, st)"

definition faulty_evaluator :: "(nat, nat, unit, unit, string, nat) evaluator" where
  "faulty_evaluator st n = (Some 42, st)"


section \<open>Notions of the specification\<close>

text \<open>The last element of a path, trailing slashes ignored; a path has no base name
  when that element is empty or is the current-directory element.\<close>

definition last_element :: "string \<Rightarrow> string" where
  "last_element p = rev (takeWhile (\<lambda>c. c \<noteq> CHR ''/'') (rev (strip_trailing_slashes p)))"

definition no_base_name :: "string \<Rightarrow> bool" where
  "no_base_name p = (last_element p = [] \<or> last_element p = ''.'')"

text \<open>The final segment of a path after normalisation (slash-separated, absolute and
  cleaned, as \<open>Parse\<close> and \<open>InMemLoader.Set\<close> normalise) is empty.\<close>

definition final_segment_empty :: "char \<Rightarrow> string \<Rightarrow> bool" where
  "final_segment_empty Separator p = (snd (Split (Join [''/'', ToSlash Separator p])) = [])"

section \<open>Evaluating the examples\<close>

lemma path_examples:
  "Join [''/'', ''a.jet''] = ''/a.jet''"
  "Join [''/'', ''a''] = ''/a''"
  "Join [''/'', ''..''] = ''/''"
  "Join [''/'', ''b''] = ''/b''"
  "Dir ''/'' = ''/''"
  "Dir ''/a/b/child'' = ''/a/b''"
  "Join [''/a/b'', ''../base''] = ''/a/base''"
  "Join [''/a/b/child'', ''../base''] = ''/a/b/base''"
  "Base ''.'' = ''.''"
  "Base ''/'' = ''/''"
  "Split ''/'' = (''/'', [])"
  by code_simp+

lemmas lookup_defs =
  GetTemplate_def getSiblingTemplate_def ToSlash_def IsAbs_def getTemplate_def
  getTemplateFromCache_def getTemplateFromLoader_def defaultExtensions_def loadFromFile_def
  call_parse_def plain_parse_def log_access_def InMemLoader_def InMemLoader_Exists_def
  InMemLoader_Open_def InMemLoader_Set_def NewSetLoader_def SetExtensions_def Let_def
  example_Mem_def path_examples



lemma both_after_jet_eval:
  "both_after_jet =
     (Inr 0, both_Set\<lparr>templates := [''/a.jet'' \<mapsto> 0]\<rparr>,
      \<lparr>heap = (\<lambda>_. empty_template)(0 :=
          \<lparr>ParseName = ''/a.jet'', Root = ''jet'', extends = None, imports_list = [],
           processedBlocks = Map.empty, set_ptr = 0\<rparr>),
       next_ref = Suc 0, accesses = [ExistsCall ''/a.jet'', OpenCall ''/a.jet'']\<rparr>)"
  by (simp add: both_after_jet_def both_Set_def lookup_defs)

lemma jet_only_first_eval:
  "jet_only_first =
     (Inr 0, jet_only_Set\<lparr>templates := [''/a'' \<mapsto> 0]\<rparr>,
      \<lparr>heap = (\<lambda>_. empty_template)(0 :=
          \<lparr>ParseName = ''/a.jet'', Root = ''hello'', extends = None, imports_list = [],
           processedBlocks = Map.empty, set_ptr = 0\<rparr>),
       next_ref = Suc 0, accesses = [ExistsCall ''/a.jet'', OpenCall ''/a.jet'']\<rparr>)"
  by (simp add: jet_only_first_def jet_only_Set_def jet_Set_def lookup_defs)

lemma example_heap_chain:
  "ancestor example_heap (Suc 0) (Suc 0) = Some 0" "extends (example_heap 0) = None"
  by (simp_all add: example_heap_def)

section \<open>Globals\<close>

lemma iface_box_neq:
  "IfaceValue (ValueOf (v::'a iface)) \<noteq> v" and "ValueOf (IfaceValue (x::'a Value)) \<noteq> x"
  by (induction v and x) auto

text \<open>C10.  After \<open>s.AddGlobal(k, v)\<close>, \<open>s.LookupGlobal(k)\<close> reports the key as found
  and returns the \<open>reflect.Value\<close> box made by \<open>reflect.ValueOf(v)\<close>, which is not the
  value \<open>v\<close> itself.\<close>

theorem AddGlobal_then_LookupGlobal:
  "LookupGlobal (AddGlobal s key v) key = (IfaceValue (ValueOf v), True)
   \<and> fst (LookupGlobal (AddGlobal s key v) key) \<noteq> v"
  by (simp add: LookupGlobal_def AddGlobal_def iface_box_neq)

section \<open>Sibling-relative resolution\<close>

text \<open>C6.  \<open>getSiblingTemplate\<close> joins a path that is not absolute against the
  directory of the sibling path, and passes an absolute path on as it is.  A reference
  to \<open>../base\<close> from \<open>/a/b/child\<close> is looked up as \<open>/a/base\<close>: the directory of the
  sibling is \<open>/a/b\<close>, whereas joining against the sibling itself would give
  \<open>/a/b/base\<close>.\<close>

theorem getSiblingTemplate_joins_directory:
  "(\<not> IsAbs (ToSlash Separator p) \<longrightarrow>
      getSiblingTemplate Separator parse s m p sib c =
        getTemplate parse s m (Join [Dir (ToSlash Separator sib), ToSlash Separator p]) c)
   \<and> (IsAbs (ToSlash Separator p) \<longrightarrow>
      getSiblingTemplate Separator parse s m p sib c =
        getTemplate parse s m (ToSlash Separator p) c)
   \<and> getSiblingTemplate CHR ''/'' parse s m ''../base'' ''/a/b/child'' c =
        getTemplate parse s m ''/a/base'' c
   \<and> Dir ''/a/b/child'' = ''/a/b''
   \<and> Join [''/a/b/child'', ''../base''] = ''/a/b/base''"
  by (simp add: getSiblingTemplate_def Let_def path_examples)
     (simp add: ToSlash_def IsAbs_def path_examples)

text \<open>Witness for C6: a relative reference and an absolute one.\<close>

theorem getSiblingTemplate_joins_directory_witness:
  "\<not> IsAbs (ToSlash CHR ''/'' ''../base'')
   \<and> getSiblingTemplate CHR ''/'' plain_parse empty_Set example_Mem ''../base'' ''/a/b/child'' False =
       getTemplate plain_parse empty_Set example_Mem
         (Join [Dir (ToSlash CHR ''/'' ''/a/b/child''), ToSlash CHR ''/'' ''../base'']) False
   \<and> IsAbs (ToSlash CHR ''/'' ''/x'')
   \<and> getSiblingTemplate CHR ''/'' plain_parse empty_Set example_Mem ''/x'' ''/a/b/child'' False =
       getTemplate plain_parse empty_Set example_Mem (ToSlash CHR ''/'' ''/x'') False"
proof -
  have rel: "\<not> IsAbs (ToSlash CHR ''/'' ''../base'')" by (simp add: ToSlash_def IsAbs_def)
  have abs: "IsAbs (ToSlash CHR ''/'' ''/x'')" by (simp add: ToSlash_def IsAbs_def)
  show ?thesis
    using rel abs
      getSiblingTemplate_joins_directory
        [of "CHR ''/''" "''../base''" plain_parse empty_Set example_Mem "''/a/b/child''" False]
      getSiblingTemplate_joins_directory
        [of "CHR ''/''" "''/x''" plain_parse empty_Set example_Mem "''/a/b/child''" False]
    by blast
qed

section \<open>Properties of execution\<close>

lemma resolve_extends_ancestor:
  "ancestor h t n = Some root \<Longrightarrow> extends (h root) = None \<Longrightarrow> resolve_extends h t = Some root"
proof (induction n arbitrary: t)
  case 0
  then show ?case by (subst resolve_extends.simps) simp
next
  case (Suc n)
  then obtain parent where p: "extends (h t) = Some parent" "ancestor h parent n = Some root"
    by (auto split: option.splits)
  with Suc have "resolve_extends h parent = Some root" by blast
  with p show ?case by (subst resolve_extends.simps) simp
qed

lemma ExecuteI18N_unfold:
  assumes "ancestor h t n = Some root" and "extends (h root) = None"
  shows "ExecuteI18N executeList h pool st t tr w vars data =
           Some (case executeList (bind_state st (h t) tr w vars data) (Root (h root)) of
                   (fault, st2) \<Rightarrow> recover st2 fault pool)"
  using resolve_extends_ancestor [OF assms]
  by (simp add: ExecuteI18N_def split: prod.splits)

lemma bind_state_fields:
  "blocks (bind_state st t tr w vars data) = processedBlocks t"
  "translator (bind_state st t tr w vars data) = tr"
  "variables (bind_state st t tr w vars data) = vars"
  "set_ref (bind_state st t tr w vars data) = set_ptr t"
  "Writer (bind_state st t tr w vars data) = w"
  "context_val (bind_state st t tr w vars data) =
     (if data \<noteq> IfaceNil then ValueOf data else context_val st)"
  by (simp_all add: bind_state_def Let_def)

text \<open>C2.  When the extends chain of \<open>t\<close> ends, after some number of links, in a template
  \<open>root\<close> whose extends link is nil, \<open>ExecuteI18N\<close> on \<open>t\<close> returns, and what it returns is
  the outcome of the evaluator run on the node tree of \<open>root\<close>, in a runtime state whose
  block table is the processed-blocks table of \<open>t\<close> itself.\<close>

theorem ExecuteI18N_runs_rootmost:
  assumes "ancestor h t n = Some root" and "extends (h root) = None"
  shows "\<exists>st1. blocks st1 = processedBlocks (h t)
           \<and> ExecuteI18N executeList h pool st t tr w vars data =
               Some (case executeList st1 (Root (h root)) of
                       (fault, st2) \<Rightarrow> recover st2 fault pool)"
proof (intro exI conjI)
  show "blocks (bind_state st (h t) tr w vars data) = processedBlocks (h t)"
    by (simp add: bind_state_fields)
  show "ExecuteI18N executeList h pool st t tr w vars data =
          Some (case executeList (bind_state st (h t) tr w vars data) (Root (h root)) of
                  (fault, st2) \<Rightarrow> recover st2 fault pool)"
    by (rule ExecuteI18N_unfold [OF assms])
qed

text \<open>Witness for C2: the child at 1 extends the base at 0; the evaluator runs on the
  base's tree with the child's blocks.\<close>

theorem ExecuteI18N_runs_rootmost_witness:
  "ancestor example_heap (Suc 0) (Suc 0) = Some 0 \<and> extends (example_heap 0) = None
   \<and> (\<exists>st1. blocks st1 = processedBlocks (example_heap (Suc 0))
         \<and> ExecuteI18N quiet_evaluator example_heap [] used_state (Suc 0) None () no_vars IfaceNil =
             Some (case quiet_evaluator st1 (Root (example_heap 0)) of
                     (fault, st2) \<Rightarrow> recover st2 fault []))"
  using example_heap_chain
    ExecuteI18N_runs_rootmost [OF example_heap_chain, of quiet_evaluator "[]" used_state None "()" no_vars IfaceNil]
  by blast

text \<open>C3.  When the extends chain of \<open>t\<close> ends, \<open>ExecuteI18N\<close> and \<open>Execute\<close> return an error
  result and never let a panic through: if the evaluator panics with a fault, the
  returned error is non-nil and made from that fault; if it returns normally, the
  returned error is nil.\<close>

theorem ExecuteI18N_contains_faults:
  assumes "ancestor h t n = Some root" and "extends (h root) = None"
  shows "(\<exists>err pool'.
            ExecuteI18N executeList h pool st t tr w vars data = Some (Returned err, pool')
            \<and> (\<forall>f. fst (executeList (bind_state st (h t) tr w vars data) (Root (h root))) = Some f
                    \<longrightarrow> err = Some (ExecutionFault f))
            \<and> (fst (executeList (bind_state st (h t) tr w vars data) (Root (h root))) = None
                    \<longrightarrow> err = None))
       \<and> (\<exists>err pool'.
            Execute executeList h pool st t w vars data = Some (Returned err, pool')
            \<and> (\<forall>f. fst (executeList (bind_state st (h t) None w vars data) (Root (h root))) = Some f
                    \<longrightarrow> err = Some (ExecutionFault f))
            \<and> (fst (executeList (bind_state st (h t) None w vars data) (Root (h root))) = None
                    \<longrightarrow> err = None))"
proof -
  have "\<exists>err pool'.
          ExecuteI18N executeList h pool st t tr' w vars data = Some (Returned err, pool')
          \<and> (\<forall>f. fst (executeList (bind_state st (h t) tr' w vars data) (Root (h root))) = Some f
                  \<longrightarrow> err = Some (ExecutionFault f))
          \<and> (fst (executeList (bind_state st (h t) tr' w vars data) (Root (h root))) = None
                  \<longrightarrow> err = None)" for tr'
    unfolding ExecuteI18N_unfold [OF assms]
    by (cases "executeList (bind_state st (h t) tr' w vars data) (Root (h root))")
       (auto simp: recover_def split: option.splits)
  then show ?thesis unfolding Execute_def by blast
qed

text \<open>Witness for C3: the evaluator panics with 42, and the call returns the error made
  from 42; the evaluator returns normally, and the call returns nil.\<close>

theorem ExecuteI18N_contains_faults_witness:
  "ancestor example_heap (Suc 0) (Suc 0) = Some 0 \<and> extends (example_heap 0) = None
   \<and> map_option fst
       (ExecuteI18N faulty_evaluator example_heap [] used_state (Suc 0) None () no_vars IfaceNil) =
       Some (Returned (Some (ExecutionFault 42)))
   \<and> map_option fst
       (Execute faulty_evaluator example_heap [] used_state (Suc 0) () no_vars IfaceNil) =
       Some (Returned (Some (ExecutionFault 42)))
   \<and> map_option fst
       (ExecuteI18N quiet_evaluator example_heap [] used_state (Suc 0) None () no_vars IfaceNil) =
       Some (Returned None)"
  using example_heap_chain
    ExecuteI18N_contains_faults [OF example_heap_chain, of faulty_evaluator "[]" used_state None "()" no_vars IfaceNil]
    ExecuteI18N_contains_faults [OF example_heap_chain, of quiet_evaluator "[]" used_state None "()" no_vars IfaceNil]
  by (auto simp: faulty_evaluator_def quiet_evaluator_def)




section \<open>Lookup: cache and loader probes\<close>

lemma call_parse_frame:
  "call_parse parse s m p x c = (r, s', m') \<Longrightarrow>
     extensions s' = extensions s \<and> developmentMode s' = developmentMode s \<and> loader s' = loader s"
  by (auto simp: call_parse_def split: prod.splits)

lemma loadFromFile_frame:
  "loadFromFile parse s m p c = (r, s', m') \<Longrightarrow>
     extensions s' = extensions s \<and> developmentMode s' = developmentMode s \<and> loader s' = loader s"
  by (auto simp: loadFromFile_def Let_def split: sum.splits dest: call_parse_frame)

lemma loader_probe_frame:
  "loader_probe parse s m p c exts = (r, s', m') \<Longrightarrow>
     extensions s' = extensions s \<and> developmentMode s' = developmentMode s \<and> loader s' = loader s"
proof (induction exts arbitrary: m)
  case Nil
  then show ?case by simp
next
  case (Cons e exts)
  show ?case
  proof (cases "snd (Exists (loader s) (p @ e))")
    case True
    with Cons.prems show ?thesis by (simp add: Let_def loadFromFile_frame)
  next
    case False
    with Cons.prems show ?thesis by (simp add: Let_def Cons.IH)
  qed
qed

lemma loader_probe_first:
  "\<forall>x\<in>set pre. \<not> snd (Exists (loader s) (p @ x)) \<Longrightarrow> snd (Exists (loader s) (p @ e)) \<Longrightarrow>
   loader_probe parse s m p c (pre @ e # post) =
     loadFromFile parse s
       (m\<lparr>accesses := accesses m @ map (\<lambda>x. ExistsCall (p @ x)) (pre @ [e])\<rparr>) (p @ e) c"
proof (induction pre arbitrary: m)
  case Nil
  then show ?case by (simp add: Let_def log_access_def)
next
  case (Cons x pre)
  then show ?case by (simp add: Let_def log_access_def)
qed

lemma loader_probe_none:
  "\<forall>x\<in>set exts. \<not> snd (Exists (loader s) (p @ x)) \<Longrightarrow>
   loader_probe parse s m p c exts =
     (Inl (TemplateNotFound p), s,
      m\<lparr>accesses := accesses m @ map (\<lambda>x. ExistsCall (p @ x)) exts\<rparr>)"
proof (induction exts arbitrary: m)
  case Nil
  then show ?case by simp
next
  case (Cons x exts)
  then show ?case by (simp add: Let_def log_access_def)
qed

lemma getTemplate_miss:
  "developmentMode s \<or> getTemplateFromCache s p = None \<Longrightarrow>
   fst (getTemplate parse s m p c) = fst (getTemplateFromLoader parse s m p c)"
  by (auto simp: getTemplate_def split: prod.splits sum.splits)




text \<open>C4, as the code has it.  Whenever the cache probe misses (as it always does in
  development mode), the first extension candidate in configured order for which the
  loader reports existence is the one loaded, after one existence check for each
  candidate up to it; with the default extension list and a loader in which \<open>p\<close> exists,
  the lookup gives what loading the exact path \<open>p\<close> gives.\<close>

theorem first_existing_candidate_is_loaded:
  assumes "developmentMode s \<or> getTemplateFromCache s p = None"
  shows "(\<forall>pre e post.
            extensions s = pre @ e # post
            \<longrightarrow> (\<forall>x\<in>set pre. \<not> snd (Exists (loader s) (p @ x)))
            \<longrightarrow> snd (Exists (loader s) (p @ e))
            \<longrightarrow> getTemplateFromLoader parse s m p c =
                  loadFromFile parse s
                    (m\<lparr>accesses := accesses m @ map (\<lambda>x. ExistsCall (p @ x)) (pre @ [e])\<rparr>)
                    (p @ e) c
                \<and> fst (getTemplate parse s m p c) =
                  fst (loadFromFile parse s
                    (m\<lparr>accesses := accesses m @ map (\<lambda>x. ExistsCall (p @ x)) (pre @ [e])\<rparr>)
                    (p @ e) c))
       \<and> (extensions s = defaultExtensions \<longrightarrow> snd (Exists (loader s) p)
            \<longrightarrow> fst (getTemplate parse s m p c) =
                  fst (loadFromFile parse s (log_access (ExistsCall p) m) p c))"
proof (intro conjI allI impI)
  fix pre e post
  assume e: "extensions s = pre @ e # post"
    "\<forall>x\<in>set pre. \<not> snd (Exists (loader s) (p @ x))" "snd (Exists (loader s) (p @ e))"
  then show l: "getTemplateFromLoader parse s m p c =
      loadFromFile parse s
        (m\<lparr>accesses := accesses m @ map (\<lambda>x. ExistsCall (p @ x)) (pre @ [e])\<rparr>) (p @ e) c"
    using loader_probe_first [of pre s p e parse m c post]
    by (simp add: getTemplateFromLoader_def)
  show "fst (getTemplate parse s m p c) =
      fst (loadFromFile parse s
        (m\<lparr>accesses := accesses m @ map (\<lambda>x. ExistsCall (p @ x)) (pre @ [e])\<rparr>) (p @ e) c)"
    using getTemplate_miss [OF assms, of parse m c] l by simp
next
  assume "extensions s = defaultExtensions" "snd (Exists (loader s) p)"
  then have "getTemplateFromLoader parse s m p c =
      loadFromFile parse s (log_access (ExistsCall p) m) p c"
    by (simp add: getTemplateFromLoader_def defaultExtensions_def Let_def)
  then show "fst (getTemplate parse s m p c) =
      fst (loadFromFile parse s (log_access (ExistsCall p) m) p c)"
    using getTemplate_miss [OF assms, of parse m c] by simp
qed

text \<open>Witness for C4: in \<open>jet_Set\<close> the candidate \<open>/a\<close> does not exist and \<open>/a.jet\<close> does;
  in \<open>both_Set\<close> both exist and the exact path is loaded.\<close>

theorem first_existing_candidate_is_loaded_witness:
  "(developmentMode jet_Set \<or> getTemplateFromCache jet_Set ''/a'' = None)
   \<and> extensions jet_Set = [[]] @ ''.jet'' # [''.html.jet'', ''.jet.html'']
   \<and> \<not> snd (Exists (loader jet_Set) (''/a'' @ []))
   \<and> snd (Exists (loader jet_Set) (''/a'' @ ''.jet''))
   \<and> fst (getTemplate plain_parse jet_Set example_Mem ''/a'' True) =
       fst (loadFromFile plain_parse jet_Set
              (example_Mem\<lparr>accesses := accesses example_Mem @
                  map (\<lambda>x. ExistsCall (''/a'' @ x)) ([[]] @ [''.jet''])\<rparr>)
              (''/a'' @ ''.jet'') True)
   \<and> (developmentMode both_Set \<or> getTemplateFromCache both_Set ''/a'' = None)
   \<and> extensions both_Set = defaultExtensions
   \<and> snd (Exists (loader both_Set) ''/a'')
   \<and> fst (getTemplate plain_parse both_Set example_Mem ''/a'' True) =
       fst (loadFromFile plain_parse both_Set (log_access (ExistsCall ''/a'') example_Mem) ''/a'' True)"
proof -
  have j1: "developmentMode jet_Set \<or> getTemplateFromCache jet_Set ''/a'' = None"
    by (simp add: jet_Set_def NewSetLoader_def getTemplateFromCache_def defaultExtensions_def)
  have j2: "extensions jet_Set = [[]] @ ''.jet'' # [''.html.jet'', ''.jet.html'']"
    by (simp add: jet_Set_def NewSetLoader_def defaultExtensions_def)
  have j3: "\<forall>x\<in>set [[]]. \<not> snd (Exists (loader jet_Set) (''/a'' @ x))"
    by (simp add: jet_Set_def lookup_defs)
  have j4: "snd (Exists (loader jet_Set) (''/a'' @ ''.jet''))"
    by (simp add: jet_Set_def lookup_defs)
  have b1: "developmentMode both_Set \<or> getTemplateFromCache both_Set ''/a'' = None"
    by (simp add: both_Set_def NewSetLoader_def getTemplateFromCache_def defaultExtensions_def)
  have b2: "extensions both_Set = defaultExtensions"
    by (simp add: both_Set_def NewSetLoader_def)
  have b3: "snd (Exists (loader both_Set) ''/a'')"
    by (simp add: both_Set_def lookup_defs)
  note J = first_existing_candidate_is_loaded [OF j1, of plain_parse example_Mem True,
      THEN conjunct1, THEN spec, THEN spec, THEN spec, THEN mp, OF j2, THEN mp, OF j3,
      THEN mp, OF j4, THEN conjunct2]
  note B = first_existing_candidate_is_loaded [OF b1, of plain_parse example_Mem True,
      THEN conjunct2, THEN mp, OF b2, THEN mp, OF b3]
  from j3 have j3': "\<not> snd (Exists (loader jet_Set) (''/a'' @ []))" by simp
  show ?thesis using j1 j2 j3' j4 J b1 b2 b3 B by (intro conjI)
qed

text \<open>Counterexample to C4 as stated: the loader holds both \<open>/a\<close> and \<open>/a.jet\<close>, the
  extension list is the default one, and \<open>/a.jet\<close> has been looked up before.  The
  lookup of \<open>/a\<close> then returns the template of \<open>/a.jet\<close> from the cache, and loads
  nothing.\<close>

theorem GetTemplate_cached_jet_counterexample:
  "snd (Exists (loader (fst (snd both_after_jet))) ''/a'')
   \<and> snd (Exists (loader (fst (snd both_after_jet))) (''/a'' @ ''.jet''))
   \<and> extensions (fst (snd both_after_jet)) = defaultExtensions
   \<and> GetTemplate CHR ''/'' plain_parse (fst (snd both_after_jet)) (snd (snd both_after_jet)) ''/a''
       = (Inr 0, fst (snd both_after_jet), snd (snd both_after_jet))
   \<and> ParseName (heap (snd (snd both_after_jet)) 0) = ''/a.jet''
   \<and> Root (heap (snd (snd both_after_jet)) 0) = ''jet''"
  unfolding both_after_jet_eval
  by (simp add: both_Set_def lookup_defs)

text \<open>The entry that \<open>getTemplate\<close> stores is found again by the cache probe when the
  extension list starts with the empty extension: the second lookup then returns the
  same pointer and leaves the Set and the memory as they were.\<close>

lemma second_lookup_from_cache:
  assumes "\<not> developmentMode s" and "extensions s = [] # rest"
    and "GetTemplate Separator parse s m p = (Inr t, s1, m1)"
  shows "GetTemplate Separator parse s1 m1 p = (Inr t, s1, m1)"
proof -
  define q where "q = (if \<not> IsAbs (ToSlash Separator p)
    then Join [Dir (ToSlash Separator ''/''), ToSlash Separator p] else ToSlash Separator p)"
  have G: "\<And>s m. GetTemplate Separator parse s m p = getTemplate parse s m q True"
    by (simp add: GetTemplate_def getSiblingTemplate_def q_def Let_def)
  from assms(3) have g: "getTemplate parse s m q True = (Inr t, s1, m1)" by (simp add: G)
  show ?thesis
  proof (cases "getTemplateFromCache s q")
    case (Some t')
    with g assms(1) have "t' = t" "s1 = s" "m1 = m" by (auto simp: getTemplate_def)
    with Some assms(1) show ?thesis by (simp add: G getTemplate_def)
  next
    case None
    obtain r s2 m2 where l: "getTemplateFromLoader parse s m q True = (r, s2, m2)"
      by (cases "getTemplateFromLoader parse s m q True") auto
    then have fr: "extensions s2 = extensions s" "developmentMode s2 = developmentMode s"
      using loader_probe_frame [of parse s m q True "extensions s" r s2 m2]
      by (simp_all add: getTemplateFromLoader_def)
    from g None assms(1) l fr
    have s1: "s1 = s2\<lparr>templates := (templates s2)(q \<mapsto> t)\<rparr>" "m1 = m2"
      by (auto simp: getTemplate_def split: sum.splits)
    then have "getTemplateFromCache s1 q = Some t" "\<not> developmentMode s1"
      using fr assms(1,2) by (simp_all add: getTemplateFromCache_def)
    then show ?thesis by (simp add: G getTemplate_def)
  qed
qed

text \<open>C5.  Outside development mode a second \<open>GetTemplate(p)\<close> after a successful first
  one should return the same template without asking the loader.  The code does not do
  so on this input: after \<open>SetExtensions([]string{".jet"})\<close> the first \<open>GetTemplate("/a")\<close>
  succeeds with template 0 and stores it under \<open>/a\<close>; the cache probe for \<open>/a\<close> tries
  \<open>/a.jet\<close> only and never finds that entry; the second call asks the loader again
  (one \<open>Exists\<close>, one \<open>Open\<close>) and returns the new template 1.\<close>

theorem GetTemplate_again_failing_input:
  "\<not> developmentMode jet_only_Set
   \<and> fst jet_only_first = Inr 0
   \<and> loader (fst (snd jet_only_first)) = loader jet_only_Set
   \<and> templates (fst (snd jet_only_first)) ''/a'' = Some 0
   \<and> getTemplateFromCache (fst (snd jet_only_first)) ''/a'' = None
   \<and> fst (GetTemplate CHR ''/'' plain_parse (fst (snd jet_only_first))
            (snd (snd jet_only_first)) ''/a'') = Inr 1
   \<and> accesses (snd (snd (GetTemplate CHR ''/'' plain_parse (fst (snd jet_only_first))
            (snd (snd jet_only_first)) ''/a'')))
       = accesses (snd (snd jet_only_first)) @ [ExistsCall ''/a.jet'', OpenCall ''/a.jet'']"
  unfolding jet_only_first_eval
  by (simp add: jet_only_Set_def jet_Set_def lookup_defs)

text \<open>C8, as the code has it.  When no extension candidate of the resolved path exists in
  the loader, and none is in the cache or the Set is in development mode, the lookup
  fails with a TemplateNotFound error and returns no template; the error names the
  resolved path \<open>q\<close>: the path after slash conversion and sibling-relative joining,
  before extension qualification.  The cache is unchanged and the loader was asked once
  about each candidate.\<close>

theorem getSiblingTemplate_not_found:
  assumes "q = (if IsAbs (ToSlash Separator p) then ToSlash Separator p
                else Join [Dir (ToSlash Separator sib), ToSlash Separator p])"
    and "developmentMode s \<or> getTemplateFromCache s q = None"
    and "\<forall>x\<in>set (extensions s). \<not> snd (Exists (loader s) (q @ x))"
  shows "getSiblingTemplate Separator parse s m p sib c =
           (Inl (TemplateNotFound q), s,
            m\<lparr>accesses := accesses m @ map (\<lambda>x. ExistsCall (q @ x)) (extensions s)\<rparr>)
         \<and> Error (TemplateNotFound q) = ''template '' @ q @ '' could not be found''"
  using assms loader_probe_none [of "extensions s" s q parse m c]
  by (auto simp: getSiblingTemplate_def Let_def getTemplate_def getTemplateFromLoader_def)

text \<open>Witness for C8: \<open>../base\<close> referenced from \<open>/a/b/child\<close>, in a Set whose loader holds
  \<open>/a.jet\<close> only.\<close>

theorem getSiblingTemplate_not_found_witness:
  "''/a/base'' = (if IsAbs (ToSlash CHR ''/'' ''../base'') then ToSlash CHR ''/'' ''../base''
                else Join [Dir (ToSlash CHR ''/'' ''/a/b/child''), ToSlash CHR ''/'' ''../base''])
   \<and> (developmentMode jet_Set \<or> getTemplateFromCache jet_Set ''/a/base'' = None)
   \<and> \<not> snd (Exists (loader jet_Set) (''/a/base'' @ []))
   \<and> \<not> snd (Exists (loader jet_Set) (''/a/base'' @ ''.jet''))
   \<and> \<not> snd (Exists (loader jet_Set) (''/a/base'' @ ''.html.jet''))
   \<and> \<not> snd (Exists (loader jet_Set) (''/a/base'' @ ''.jet.html''))
   \<and> fst (getSiblingTemplate CHR ''/'' plain_parse jet_Set example_Mem ''../base'' ''/a/b/child'' False)
       = Inl (TemplateNotFound ''/a/base'')"
proof -
  have a: "''/a/base'' = (if IsAbs (ToSlash CHR ''/'' ''../base'') then ToSlash CHR ''/'' ''../base''
                else Join [Dir (ToSlash CHR ''/'' ''/a/b/child''), ToSlash CHR ''/'' ''../base''])"
    by (simp add: ToSlash_def IsAbs_def path_examples)
  have b: "developmentMode jet_Set \<or> getTemplateFromCache jet_Set ''/a/base'' = None"
    by (simp add: jet_Set_def NewSetLoader_def getTemplateFromCache_def defaultExtensions_def)
  have c: "\<forall>x\<in>set (extensions jet_Set). \<not> snd (Exists (loader jet_Set) (''/a/base'' @ x))"
    by (simp add: jet_Set_def lookup_defs)
  have d: "extensions jet_Set = [[], ''.jet'', ''.html.jet'', ''.jet.html'']"
    by (simp add: jet_Set_def NewSetLoader_def defaultExtensions_def)
  from getSiblingTemplate_not_found [OF a b c, of plain_parse example_Mem False]
  have "fst (getSiblingTemplate CHR ''/'' plain_parse jet_Set example_Mem ''../base'' ''/a/b/child'' False)
       = Inl (TemplateNotFound ''/a/base'')" by simp
  with a b c show ?thesis unfolding d by simp
qed

text \<open>Counterexample to C8 as stated: the caller supplies \<open>b\<close>; the error names \<open>/b\<close>.\<close>

theorem GetTemplate_not_found_counterexample:
  "GetTemplate CHR ''/'' plain_parse empty_Set example_Mem ''b'' =
     (Inl (TemplateNotFound ''/b''), empty_Set,
      example_Mem\<lparr>accesses := [ExistsCall ''/b'', ExistsCall ''/b.jet'',
         ExistsCall ''/b.html.jet'', ExistsCall ''/b.jet.html'']\<rparr>)
   \<and> TemplateNotFound ''/b'' \<noteq> TemplateNotFound ''b''
   \<and> Error (TemplateNotFound ''/b'') = ''template /b could not be found''"
  by (simp add: empty_Set_def lookup_defs)

section \<open>Explicit parse\<close>

subsection \<open>The last element of a path\<close>

lemma takeWhile_all: "\<forall>x\<in>set xs. P x \<Longrightarrow> takeWhile P xs = xs"
  by (induction xs) auto

lemma strip_append:
  "strip_trailing_slashes (xs @ ys) =
     (if strip_trailing_slashes ys = [] then strip_trailing_slashes xs
      else xs @ strip_trailing_slashes ys)"
  by (auto simp: strip_trailing_slashes_def dropWhile_append)

lemma strip_Nil_iff: "strip_trailing_slashes ys = [] \<longleftrightarrow> (\<forall>c\<in>set ys. c = CHR ''/'')"
  by (auto simp: strip_trailing_slashes_def dropWhile_eq_Nil_conv)

lemma last_element_after_slash:
  assumes "strip_trailing_slashes ys \<noteq> []"
  shows "last_element (xs @ CHR ''/'' # ys) = last_element ys"
proof -
  have "strip_trailing_slashes (xs @ CHR ''/'' # ys) = (xs @ ''/'') @ strip_trailing_slashes ys"
    using assms strip_append [of "xs @ ''/''" ys] by simp
  moreover have "takeWhile (\<lambda>c. c \<noteq> CHR ''/'') (rev zs @ CHR ''/'' # ws) =
      takeWhile (\<lambda>c. c \<noteq> CHR ''/'') (rev zs)" for zs ws :: string
    by (simp add: takeWhile_append takeWhile_all)
  ultimately show ?thesis
    by (simp add: last_element_def)
qed

lemma last_element_all_slashes:
  "strip_trailing_slashes ys = [] \<Longrightarrow> last_element (xs @ ys) = last_element xs"
  by (simp add: last_element_def strip_append)

lemma last_element_plain:
  assumes "CHR ''/'' \<notin> set x"
  shows "last_element x = x"
proof -
  have "dropWhile (\<lambda>c. c = CHR ''/'') (rev x) = rev x"
  proof (cases "rev x")
    case Nil
    then show ?thesis by simp
  next
    case (Cons a as)
    then have "a \<in> set (rev x)" by simp
    then have "a \<noteq> CHR ''/''" using assms by auto
    with Cons show ?thesis by simp
  qed
  then have s: "strip_trailing_slashes x = x"
    by (simp add: strip_trailing_slashes_def)
  have "\<forall>c\<in>set (rev x). c \<noteq> CHR ''/''" using assms by auto
  then show ?thesis unfolding last_element_def s by (simp add: takeWhile_all)
qed

lemma clean_loop_slashes:
  "strip_trailing_slashes r = [] \<Longrightarrow> clean_loop rooted r out dotdot = out"
  by (induction r) (auto simp: strip_Nil_iff)

lemma backtrack_ge: "dotdot \<le> w \<Longrightarrow> dotdot \<le> backtrack out dotdot w"
  by (induction w) auto

lemma backtrack_le: "backtrack out dotdot w \<le> w"
  by (induction w) auto


lemma last_element_skip:
  assumes "last_element (xs @ CHR ''/'' # ys) \<noteq> last_element xs"
  shows "last_element (CHR ''/'' # ys) = last_element (xs @ CHR ''/'' # ys)"
proof (cases "strip_trailing_slashes ys = []")
  case True
  then have "strip_trailing_slashes (CHR ''/'' # ys) = []" by (simp add: strip_Nil_iff)
  then have "last_element (xs @ CHR ''/'' # ys) = last_element xs"
    by (rule last_element_all_slashes)
  with assms show ?thesis by simp
next
  case False
  then show ?thesis
    using last_element_after_slash [of ys xs] last_element_after_slash [of ys "[]"] by simp
qed

lemma last_element_dots: "last_element [] = []" "last_element ''.'' = ''.''" "last_element ''..'' = ''..''"
  by (simp_all add: last_element_plain)

lemma clean_loop_keeps_last:
  "last_element r = e \<Longrightarrow> e \<noteq> [] \<Longrightarrow> e \<noteq> ''.'' \<Longrightarrow> e \<noteq> ''..'' \<Longrightarrow> 1 \<le> dotdot \<Longrightarrow>
   out \<noteq> [] \<Longrightarrow> hd out = CHR ''/'' \<Longrightarrow>
   \<exists>pre. clean_loop True r out dotdot = pre @ CHR ''/'' # e"
proof (induction "length r" arbitrary: r out rule: less_induct)
  case less
  note IH = less.hyps
  note le = \<open>last_element r = e\<close>
  note e = \<open>e \<noteq> []\<close> \<open>e \<noteq> ''.''\<close> \<open>e \<noteq> ''..''\<close>
  note inv = \<open>1 \<le> dotdot\<close> \<open>out \<noteq> []\<close> \<open>hd out = CHR ''/''\<close>
  show ?case
  proof (cases r)
    case Nil
    with le e show ?thesis by (simp add: last_element_dots)
  next
    case (Cons c rest)
    consider (slash) "c = CHR ''/''"
      | (dot) "c \<noteq> CHR ''/''" "c = CHR ''.''" "rest = [] \<or> hd rest = CHR ''/''"
      | (dotdot) "c \<noteq> CHR ''/''" "\<not> (c = CHR ''.'' \<and> (rest = [] \<or> hd rest = CHR ''/''))"
          "c = CHR ''.''" "hd rest = CHR ''.''" "tl rest = [] \<or> hd (tl rest) = CHR ''/''"
      | (elem) "c \<noteq> CHR ''/''" "\<not> (c = CHR ''.'' \<and> (rest = [] \<or> hd rest = CHR ''/''))"
          "\<not> (c = CHR ''.'' \<and> hd rest = CHR ''.'' \<and> (tl rest = [] \<or> hd (tl rest) = CHR ''/''))"
      by blast
    then show ?thesis
    proof cases
      case slash
      have "last_element (CHR ''/'' # rest) = last_element ([] @ CHR ''/'' # rest)" by simp
      from le e Cons slash have "last_element rest = e"
        using last_element_skip [of "[]" rest] last_element_after_slash [of rest "[]"]
          last_element_all_slashes [of "CHR ''/'' # rest" "[]"]
        by (cases "strip_trailing_slashes rest = []") (auto simp: last_element_dots strip_Nil_iff)
      then have "\<exists>pre. clean_loop True rest out dotdot = pre @ CHR ''/'' # e"
        using IH [of rest out] e inv Cons by simp
      then show ?thesis using Cons slash by simp
    next
      case dot
      from dot le e Cons obtain ys where ys: "rest = CHR ''/'' # ys"
        by (cases rest) (auto simp: last_element_dots)
      have "last_element (''.'' @ CHR ''/'' # ys) \<noteq> last_element ''.''"
        using le e Cons dot ys by (simp add: last_element_dots)
      from last_element_skip [OF this] have "last_element rest = e"
        using le Cons dot ys by simp
      then have "\<exists>pre. clean_loop True rest out dotdot = pre @ CHR ''/'' # e"
        using IH [of rest out] e inv Cons by simp
      then show ?thesis using Cons dot by simp
    next
      case dotdot
      from dotdot obtain rest2 where r2: "rest = CHR ''.'' # rest2"
        by (cases rest) auto
      from dotdot le e Cons r2 obtain ys where ys: "rest2 = CHR ''/'' # ys"
        by (cases rest2) (auto simp: last_element_dots)
      have "last_element (''..'' @ CHR ''/'' # ys) \<noteq> last_element ''..''"
        using le e Cons dotdot r2 ys by (simp add: last_element_dots)
      from last_element_skip [OF this] have l2: "last_element rest2 = e"
        using le Cons dotdot r2 ys by simp
      have len: "length rest2 < length r" using Cons r2 by simp
      show ?thesis
      proof (cases "length out > dotdot")
        case True
        define w where "w = backtrack out dotdot (length out - 1)"
        have w: "dotdot \<le> w" "w \<le> length out - 1"
          using True backtrack_ge [of dotdot "length out - 1" out] backtrack_le [of out dotdot "length out - 1"]
          by (simp_all add: w_def)
        then have "take w out \<noteq> []" "hd (take w out) = CHR ''/''"
          using inv by (cases out; cases w; simp)+
        then have "\<exists>pre. clean_loop True rest2 (take w out) dotdot = pre @ CHR ''/'' # e"
          using IH [OF len l2 e inv(1)] by simp
        then show ?thesis using Cons dotdot r2 True by (simp add: w_def)
      next
        case False
        have "\<exists>pre. clean_loop True rest2 out dotdot = pre @ CHR ''/'' # e"
          using IH [OF len l2 e inv] .
        then show ?thesis using Cons dotdot r2 False by simp
      qed
    next
      case elem
      define x where "x = takeWhile (\<lambda>x. x \<noteq> CHR ''/'') r"
      define rest' where "rest' = dropWhile (\<lambda>x. x \<noteq> CHR ''/'') r"
      define out' where "out' = (if length out \<noteq> 1 then out @ ''/'' else out)"
      have r: "r = x @ rest'" by (simp add: x_def rest'_def)
      have x: "x \<noteq> []" "CHR ''/'' \<notin> set x"
        using Cons elem by (auto simp: x_def dest: set_takeWhileD)
      have "clean_loop True (c # rest) out dotdot =
          (let out' = (if True \<and> length out \<noteq> 1 \<or> \<not> True \<and> length out \<noteq> 0
                       then out @ ''/'' else out)
           in clean_loop True (dropWhile (\<lambda>x. x \<noteq> CHR ''/'') (c # rest))
                (out' @ takeWhile (\<lambda>x. x \<noteq> CHR ''/'') (c # rest)) dotdot)"
        by (subst clean_loop.simps(2)) (simp only: elem if_False)
      then have step: "clean_loop True r out dotdot = clean_loop True rest' (out' @ x) dotdot"
        unfolding Cons x_def rest'_def out'_def by (simp add: Let_def)
      have o: "\<exists>pre. out' = pre @ ''/''"
      proof (cases "length out = 1")
        case True
        with inv have "out = ''/''" by (cases out) auto
        then show ?thesis by (simp add: out'_def)
      next
        case False
        then show ?thesis by (simp add: out'_def)
      qed
      show ?thesis
      proof (cases "strip_trailing_slashes rest' = []")
        case True
        then have "last_element r = x"
          using last_element_all_slashes [of rest' x] x by (simp add: r [symmetric] last_element_plain)
        with le have "e = x" by simp
        moreover have "clean_loop True r out dotdot = out' @ x"
          using step True by (simp add: clean_loop_slashes)
        ultimately show ?thesis using o by auto
      next
        case False
        then have "rest' \<noteq> []" by (auto simp: strip_trailing_slashes_def)
        then have "hd rest' = CHR ''/''"
          using hd_dropWhile [of "\<lambda>x. x \<noteq> CHR ''/''" r] by (simp add: rest'_def)
        with \<open>rest' \<noteq> []\<close> obtain ys where ys: "rest' = CHR ''/'' # ys" by (cases rest') auto
        with False have "strip_trailing_slashes ys \<noteq> []" by (auto simp: strip_Nil_iff)
        then have "last_element rest' = last_element r"
          using last_element_after_slash [of ys x] last_element_after_slash [of ys "[]"] ys r
          by simp
        with le have l: "last_element rest' = e" by simp
        have len: "length rest' < length r" using r x by simp
        have "out' @ x \<noteq> []" "hd (out' @ x) = CHR ''/''"
          using inv by (auto simp: out'_def)
        then have "\<exists>pre. clean_loop True rest' (out' @ x) dotdot = pre @ CHR ''/'' # e"
          using IH [OF len l e inv(1)] by simp
        then show ?thesis using step by simp
      qed
    qed
  qed
qed


lemma last_index_below_less: "last_index_below s c n < int n"
  by (induction n) auto

lemma last_index_below_ge: "- 1 \<le> last_index_below s c n"
  by (induction n) auto

lemma last_index_below_takeWhile:
  "n \<le> length s \<Longrightarrow>
   (if last_index_below s c n \<ge> 0 then drop (nat (last_index_below s c n + 1)) (take n s)
    else take n s) = rev (takeWhile (\<lambda>x. x \<noteq> c) (rev (take n s)))"
proof (induction n)
  case 0
  then show ?case by simp
next
  case (Suc n)
  then have n: "n < length s" by simp
  have t: "take (Suc n) s = take n s @ [s ! n]" using n by (simp add: take_Suc_conv_app_nth)
  show ?case
  proof (cases "s ! n = c")
    case True
    then show ?thesis using n by (simp add: t)
  next
    case False
    from Suc n have IH:
      "(if last_index_below s c n \<ge> 0 then drop (nat (last_index_below s c n + 1)) (take n s)
        else take n s) = rev (takeWhile (\<lambda>x. x \<noteq> c) (rev (take n s)))" by simp
    have b: "nat (last_index_below s c n + 1) \<le> n"
      using last_index_below_less [of s c n] by linarith
    show ?thesis
    proof (cases "last_index_below s c n \<ge> 0")
      case True
      with False IH b n show ?thesis by (simp add: t)
    next
      case F: False
      with False IH n show ?thesis by (simp add: t)
    qed
  qed
qed

lemma after_last_slash:
  "drop (nat (LastIndexByte s c + 1)) s = rev (takeWhile (\<lambda>x. x \<noteq> c) (rev s))"
proof (cases "LastIndexByte s c \<ge> 0")
  case True
  then show ?thesis
    using last_index_below_takeWhile [of "length s" s c] by (simp add: LastIndexByte_def)
next
  case False
  then have "LastIndexByte s c = - 1"
    using last_index_below_ge [of s c "length s"] by (simp add: LastIndexByte_def)
  with False show ?thesis
    using last_index_below_takeWhile [of "length s" s c] by (simp add: LastIndexByte_def)
qed

lemma Split_snd: "snd (Split s) = rev (takeWhile (\<lambda>x. x \<noteq> CHR ''/'') (rev s))"
  by (simp add: Split_def Let_def after_last_slash)

lemma Split_final_segment:
  "CHR ''/'' \<notin> set e \<Longrightarrow> snd (Split (pre @ CHR ''/'' # e)) = e"
  unfolding Split_snd by (simp add: takeWhile_append takeWhile_all)

lemma last_element_slash_free: "CHR ''/'' \<notin> set (last_element q)"
  by (auto simp: last_element_def dest: set_takeWhileD)

lemma Join_root_keeps_last:
  assumes "last_element q \<noteq> []" "last_element q \<noteq> ''.''" "last_element q \<noteq> ''..''"
  shows "\<exists>pre. Join [''/'', q] = pre @ CHR ''/'' # last_element q"
proof -
  from assms(1) have q: "q \<noteq> []" by (auto simp: last_element_dots)
  obtain pre where pre: "clean_loop True q ''/'' (Suc 0) = pre @ CHR ''/'' # last_element q"
    using clean_loop_keeps_last [OF refl assms, of "Suc 0" "''/''"] by auto
  have "Join [''/'', q] = Clean (''//'' @ q)" using q by (simp add: Join_def)
  also have "\<dots> = clean_loop True q ''/'' (Suc 0)" by (simp add: Clean_def Let_def pre)
  finally show ?thesis using pre by simp
qed

lemma final_segment_empty_cases:
  assumes "final_segment_empty Separator p"
  shows "no_base_name (ToSlash Separator p) \<or> last_element (ToSlash Separator p) = ''..''"
proof (rule ccontr)
  assume n: "\<not> ?thesis"
  then obtain pre where
    "Join [''/'', ToSlash Separator p] = pre @ CHR ''/'' # last_element (ToSlash Separator p)"
    using Join_root_keeps_last [of "ToSlash Separator p"] by (auto simp: no_base_name_def)
  then have "snd (Split (Join [''/'', ToSlash Separator p])) = last_element (ToSlash Separator p)"
    by (simp add: Split_final_segment last_element_slash_free)
  with assms n show False by (simp add: final_segment_empty_def no_base_name_def)
qed

subsection \<open>The guard of Parse\<close>

text \<open>\<open>path.Base\<close> in terms of the last element.\<close>

lemma Base_last_element:
  "Base p = (if p = [] then ''.'' else if last_element p = [] then ''/'' else last_element p)"
proof -
  define q where "q = strip_trailing_slashes p"
  define i where "i = LastIndexByte q CHR ''/''"
  have le: "last_element p = rev (takeWhile (\<lambda>c. c \<noteq> CHR ''/'') (rev q))"
    by (simp add: last_element_def q_def)
  have "(if i \<ge> 0 then drop (nat (i + 1)) q else q) = last_element p"
    using last_index_below_takeWhile [of "length q" q "CHR ''/''"]
    by (simp add: i_def LastIndexByte_def le split: if_splits)
  then have "Base p = (if p = [] then ''.'' else
      (let p2 = last_element p in if p2 = [] then ''/'' else p2))"
    unfolding Base_def q_def [symmetric] Let_def i_def [symmetric] by presburger
  then show ?thesis by (simp add: Let_def)
qed

lemma last_element_no_slash: "last_element p \<noteq> ''/''"
proof
  assume "last_element p = ''/''"
  then have "CHR ''/'' \<in> set (takeWhile (\<lambda>c. c \<noteq> CHR ''/'') (rev (strip_trailing_slashes p)))"
    unfolding last_element_def by (metis list.set_intros(1) set_rev rev_rev_ident)
  then show False by (auto dest: set_takeWhileD)
qed

lemma Base_no_base_name: "(Base p = ''.'' \<or> Base p = ''/'') = no_base_name p"
  using last_element_no_slash [of p]
  by (auto simp: Base_last_element no_base_name_def last_element_dots)

text \<open>The guard of \<open>Parse\<close>: a path without a base name is rejected, leaving the Set and
  the memory as they were; every other path is normalised and handed to the parser.\<close>

lemma Parse_guard:
  "Parse Separator parse s m p contents =
     (if no_base_name (ToSlash Separator p) then (Inl InvalidTemplatePath, s, m)
      else call_parse parse s m (Join [''/'', ToSlash Separator p]) contents False)"
  using Base_no_base_name [of "ToSlash Separator p"] by (auto simp: Parse_def Let_def)

text \<open>C7.  Every path whose final segment is empty after normalisation should fail with
  InvalidTemplatePath before the parser is reached.  \<open>Parse("/", "text")\<close> and
  \<open>Parse(".", "text")\<close> do fail so.  The code does not do so on the paths \<open>a/..\<close> and
  \<open>..\<close>: they normalise to \<open>/\<close>, as \<open>/\<close> and \<open>.\<close> do, and their final segment is
  empty, but the guard looks at the base name before the path is cleaned, finds \<open>..\<close>,
  and the parser is called with the path \<open>/\<close>.\<close>

theorem Parse_dotdot_failing_input:
  "final_segment_empty CHR ''/'' ''a/..''
   \<and> Join [''/'', ToSlash CHR ''/'' ''a/..''] = Join [''/'', ToSlash CHR ''/'' ''/'']
   \<and> Join [''/'', ToSlash CHR ''/'' ''a/..''] = Join [''/'', ToSlash CHR ''/'' ''.'']
   \<and> Parse CHR ''/'' plain_parse empty_Set example_Mem ''/'' ''text'' =
       (Inl InvalidTemplatePath, empty_Set, example_Mem)
   \<and> Parse CHR ''/'' plain_parse empty_Set example_Mem ''.'' ''text'' =
       (Inl InvalidTemplatePath, empty_Set, example_Mem)
   \<and> fst (Parse CHR ''/'' plain_parse empty_Set example_Mem ''a/..'' ''text'') = Inr 0
   \<and> ParseName (heap (snd (snd (Parse CHR ''/'' plain_parse empty_Set example_Mem ''a/..'' ''text''))) 0) = ''/''
   \<and> fst (Parse CHR ''/'' plain_parse empty_Set example_Mem ''..'' ''text'') = Inr 0
   \<and> ParseName (heap (snd (snd (Parse CHR ''/'' plain_parse empty_Set example_Mem ''..'' ''text''))) 0) = ''/''"
proof -
  have a: "final_segment_empty CHR ''/'' ''a/..''" by code_simp
  have c: "Base ''a/..'' = ''..''" "Join [''/'', ''a/..''] = ''/''" "Base ''..'' = ''..''"
    "Join [''/'', ''/''] = ''/''" "Join [''/'', ''.''] = ''/''"
    by code_simp+
  show ?thesis
    using a by (simp add: Parse_def empty_Set_def lookup_defs c)
qed

end
